theory Spec2Isabelle
  imports Main
begin

section \<open>Values, objects and the object store\<close>

text \<open>
  The configuration values are JavaScript primitives. Numbers are never computed with
  by the manager, only stored and copied, so they are carried as integers.
\<close>

datatype jsval = Undefined | Null | Str string | Num int | Bool bool

datatype cfgtype = TString | TNumber | TBoolean

text \<open>
  A plain object is the list of its own enumerable properties in iteration order.
  Reading a property that is absent gives \<open>undefined\<close>; writing a property replaces
  the value in place when the property exists and appends it otherwise. Property names
  are identifiers: names that read as array indices, which JavaScript iterates first,
  are not covered.
\<close>

type_synonym obj = "(string \<times> jsval) list"

type_synonym addr = nat

definition obj_get :: "obj \<Rightarrow> string \<Rightarrow> jsval" where
  "obj_get ob p = (case map_of ob p of None \<Rightarrow> Undefined | Some v \<Rightarrow> v)"

fun obj_set :: "string \<Rightarrow> jsval \<Rightarrow> obj \<Rightarrow> obj" where
  "obj_set p v [] = [(p, v)]"
| "obj_set p v ((q, u) # ob) = (if q = p then (p, v) # ob else (q, u) # obj_set p v ob)"

text \<open>
  The options object that the metadata store keeps for one decorated property. The manager
  reads \<open>property\<close>, \<open>type\<close> and \<open>value\<close> from it and copies it whole for the
  definitions export; \<open>fo_value\<close> is \<open>Undefined\<close> when the store keeps no such attribute.
\<close>

record field_options =
  fo_name :: string
  fo_description :: string
  fo_required :: bool
  fo_recommendedValue :: jsval
  fo_type :: cfgtype
  fo_property :: string
  fo_value :: jsval

text \<open>
  A class token, as far as the manager looks at it: its name, the own properties of a
  fresh \<open>new clazz()\<close> (the in-class defaults), and the two maps that the metadata store
  attaches to its prototype, each a list of entries in insertion order whose values are
  references to options objects: by declared config name (\<open>getConfigValueNames\<close>) and
  by property in declaration order (\<open>getConfigValueOptionsMap\<close>).
\<close>

record clazz =
  cls_name :: string
  cls_new :: obj
  cls_by_name :: "(string \<times> addr) list"
  cls_by_property :: "(string \<times> addr) list"

record config_options =
  configYmlPath :: "string option"

text \<open>
  The state: the manager's \<open>configs\<close> map (a JavaScript \<open>Map\<close>, so in insertion order),
  and the store of the process: instances and options objects by address, with the next
  free address.
\<close>

record state =
  configs :: "(clazz \<times> addr) list"
  objs :: "addr \<Rightarrow> obj"
  optobjs :: "addr \<Rightarrow> field_options"
  nxt :: addr

text \<open>
  The collaborators that are outside the manager: the YAML loader (\<open>None\<close> when the file
  does not exist), the environment's keys, the coercing reader of one environment
  variable, and the consistency check of one field's options.
\<close>

record world =
  loadConfigfromYaml :: "string \<Rightarrow> obj option"
  getEnvironmentVariableKeys :: "string list"
  loadEnvironmentVariable :: "string \<Rightarrow> cfgtype \<Rightarrow> jsval"
  fieldOptionsValid :: "field_options \<Rightarrow> bool"

datatype error =
    AlreadyAdded string
  | NoFields string
  | NotRegistered string
  | MissingRequiredField string string
  | UnknownProperty string string
  | ValidationError string
  | MissingYamlFile string
  | TypeError

section \<open>The Map operations\<close>

definition Map_has :: "('k \<times> 'v) list \<Rightarrow> 'k \<Rightarrow> bool" where
  "Map_has m k = (k \<in> set (map fst m))"

definition Map_get :: "('k \<times> 'v) list \<Rightarrow> 'k \<Rightarrow> 'v option" where
  "Map_get m k = map_of m k"

fun Map_set :: "'k \<Rightarrow> 'v \<Rightarrow> ('k \<times> 'v) list \<Rightarrow> ('k \<times> 'v) list" where
  "Map_set k v [] = [(k, v)]"
| "Map_set k v ((k', v') # m) = (if k' = k then (k, v) # m else (k', v') # Map_set k v m)"

section \<open>The metadata store\<close>

text \<open>
  Modelled from the spec: \<open>getConfigValueOptionsMap\<close> of configMetadata is not in the
  sources. It gives the ordered mapping from property to field definition and fails,
  naming the class, for a class with no field definitions.
\<close>

definition getConfigValueOptionsMap :: "clazz \<Rightarrow> error + (string \<times> addr) list" where
  "getConfigValueOptionsMap c =
     (if cls_by_property c = [] then Inl (NoFields (cls_name c)) else Inr (cls_by_property c))"

text \<open>
  Modelled from the spec: \<open>getConfigValueNames\<close> of configMetadata is not in the
  sources. It gives the mapping from config name to field definition.
\<close>

definition getConfigValueNames :: "clazz \<Rightarrow> (string \<times> addr) list" where
  "getConfigValueNames c = cls_by_name c"

text \<open>
  Modelled from the spec: \<open>validateConfigFieldOptions\<close> of configMetadata is not in the
  sources. It fails for a class with no field definitions and when the options of a field
  are inconsistent or malformed.
\<close>

definition validateConfigFieldOptions :: "world \<Rightarrow> state \<Rightarrow> clazz \<Rightarrow> error option" where
  "validateConfigFieldOptions w s c =
     (case getConfigValueOptionsMap c of
        Inl e \<Rightarrow> Some e
      | Inr flds \<Rightarrow>
          if list_all (\<lambda>(p, r). fieldOptionsValid w (optobjs s r)) flds then None
          else Some (ValidationError (cls_name c)))"

text \<open>
  Modelled from the spec: \<open>validateRequiredConfigValues\<close> of configMetadata is not in
  the sources. Every field marked required must hold a non-empty, defined value on the
  instance; the first one that does not, in declaration order, is named by the error.
\<close>

definition has_value :: "jsval \<Rightarrow> bool" where
  "has_value v = (v \<noteq> Undefined \<and> v \<noteq> Null \<and> v \<noteq> Str [])"

fun first_missing ::
  "(addr \<Rightarrow> field_options) \<Rightarrow> obj \<Rightarrow> (string \<times> addr) list \<Rightarrow> (string \<times> addr) option" where
  "first_missing opts inst [] = None"
| "first_missing opts inst ((p, r) # flds) =
     (if fo_required (opts r) \<and> \<not> has_value (obj_get inst p) then Some (p, r)
      else first_missing opts inst flds)"

definition validateRequiredConfigValues :: "state \<Rightarrow> addr \<Rightarrow> clazz \<Rightarrow> error option" where
  "validateRequiredConfigValues s configInstance c =
     (case getConfigValueOptionsMap c of
        Inl e \<Rightarrow> Some e
      | Inr flds \<Rightarrow>
          (case first_missing (optobjs s) (objs s configInstance) flds of
             None \<Rightarrow> None
           | Some (p, r) \<Rightarrow> Some (MissingRequiredField p (fo_name (optobjs s r)))))"

section \<open>The manager\<close>

text \<open>\<open>new clazz()\<close>: a fresh object with the in-class defaults, at the next free address.\<close>

definition new_instance :: "clazz \<Rightarrow> state \<Rightarrow> addr \<times> state" where
  "new_instance c s =
     (nxt s, s\<lparr>objs := (objs s)(nxt s := cls_new c), nxt := Suc (nxt s)\<rparr>)"

text \<open>\<open>instance[property] = v\<close> through the reference \<open>a\<close>.\<close>

definition assign :: "addr \<Rightarrow> string \<Rightarrow> jsval \<Rightarrow> state \<Rightarrow> state" where
  "assign a p v s = s\<lparr>objs := (objs s)(a := obj_set p v (objs s a))\<rparr>"

text \<open>
  Step 2 of \<open>add\<close>, the body under \<open>if (options.configYmlPath)\<close> once the file is
  loaded: the keys of the file that are known config names, each assigned in turn. The
  keys are filtered to those the mapping has, so \<open>get(key)!\<close> finds an entry for each.
\<close>

definition yaml_overlay :: "(string \<times> addr) list \<Rightarrow> obj \<Rightarrow> addr \<Rightarrow> state \<Rightarrow> state" where
  "yaml_overlay configNamePropertyMapping yamlValues configInstance s =
     fold (\<lambda>key st.
             case Map_get configNamePropertyMapping key of
               None \<Rightarrow> st
             | Some r \<Rightarrow> assign configInstance (fo_property (optobjs st r)) (obj_get yamlValues key) st)
          (filter (\<lambda>yamlKey. Map_has configNamePropertyMapping yamlKey) (map fst yamlValues)) s"

text \<open>Step 3 of \<open>add\<close>: the environment keys that are known config names.\<close>

definition env_overlay :: "world \<Rightarrow> (string \<times> addr) list \<Rightarrow> addr \<Rightarrow> state \<Rightarrow> state" where
  "env_overlay w configNamePropertyMapping configInstance s =
     fold (\<lambda>key st.
             case Map_get configNamePropertyMapping key of
               None \<Rightarrow> st
             | Some r \<Rightarrow>
                 assign configInstance (fo_property (optobjs st r))
                   (loadEnvironmentVariable w key (fo_type (optobjs st r))) st)
          (filter (\<lambda>envKey. Map_has configNamePropertyMapping envKey) (getEnvironmentVariableKeys w)) s"

text \<open>
  Step 2 of \<open>add\<close> with its condition: an omitted path and the empty string are falsy.
\<close>

definition yaml_step ::
  "world \<Rightarrow> (string \<times> addr) list \<Rightarrow> config_options \<Rightarrow> addr \<Rightarrow> state \<Rightarrow> error + state" where
  "yaml_step w configNamePropertyMapping options configInstance s =
     (case configYmlPath options of
        None \<Rightarrow> Inr s
      | Some path \<Rightarrow>
          if path = [] then Inr s
          else (case loadConfigfromYaml w path of
                  None \<Rightarrow> Inl (MissingYamlFile path)
                | Some yamlValues \<Rightarrow>
                    Inr (yaml_overlay configNamePropertyMapping yamlValues configInstance s)))"

text \<open>\<open>this.configs.set(clazz, new clazz())\<close>, the statement of lines 20 and 45.\<close>

definition set_new :: "clazz \<Rightarrow> state \<Rightarrow> state" where
  "set_new c s = (case new_instance c s of (a, s1) \<Rightarrow> s1\<lparr>configs := Map_set c a (configs s1)\<rparr>)"

text \<open>
  \<open>add\<close>. \<open>Map.get\<close> gives \<open>undefined\<close> for an absent key; using that as an object is
  a \<open>TypeError\<close>.
\<close>

definition add :: "world \<Rightarrow> clazz \<Rightarrow> config_options \<Rightarrow> state \<Rightarrow> (error + addr) \<times> state" where
  "add w c options s =
     (if Map_has (configs s) c then (Inl (AlreadyAdded (cls_name c)), s)
      else (case validateConfigFieldOptions w s c of
        Some e \<Rightarrow> (Inl e, s)
      | None \<Rightarrow>
          (let s2 = set_new c s
           in (case Map_get (configs s2) c of
               None \<Rightarrow> (Inl TypeError, s2)
             | Some configInstance \<Rightarrow>
                 (let configNamePropertyMapping = getConfigValueNames c
                  in (case yaml_step w configNamePropertyMapping options configInstance s2 of
                      Inl e \<Rightarrow> (Inl e, s2)
                    | Inr s3 \<Rightarrow>
                        (let s4 = env_overlay w configNamePropertyMapping configInstance s3
                         in (case validateRequiredConfigValues s4 configInstance c of
                             Some e \<Rightarrow> (Inl e, s4)
                           | None \<Rightarrow>
                               (let s6 = set_new c s4
                                in (case Map_get (configs s6) c of
                                    None \<Rightarrow> (Inl TypeError, s6)
                                  | Some a \<Rightarrow> (Inr a, s6)))))))))))"

definition get :: "clazz \<Rightarrow> state \<Rightarrow> error + addr" where
  "get c s =
     (if \<not> Map_has (configs s) c then Inl (NotRegistered (cls_name c))
      else case Map_get (configs s) c of None \<Rightarrow> Inl TypeError | Some a \<Rightarrow> Inr a)"

text \<open>
  \<open>getConfigsDefintions\<close>, the body that runs after the awaited tick: for every class of
  the map, in the map's order, every options object of the class is copied into a fresh
  object, and the references to the copies are returned in that order.
\<close>

definition copy_options :: "addr \<Rightarrow> addr list \<times> state \<Rightarrow> addr list \<times> state" where
  "copy_options r acc =
     (case acc of (defs, s) \<Rightarrow>
        (defs @ [nxt s], s\<lparr>optobjs := (optobjs s)(nxt s := optobjs s r), nxt := Suc (nxt s)\<rparr>))"

fun defs_loop :: "(clazz \<times> addr) list \<Rightarrow> addr list \<times> state \<Rightarrow> (error + addr list) \<times> state" where
  "defs_loop [] (defs, s) = (Inr defs, s)"
| "defs_loop ((c, a) # rest) (defs, s) =
     (case getConfigValueOptionsMap c of
        Inl e \<Rightarrow> (Inl e, s)
      | Inr flds \<Rightarrow> defs_loop rest (fold copy_options (map snd flds) (defs, s)))"

definition getConfigsDefintions :: "state \<Rightarrow> (error + addr list) \<times> state" where
  "getConfigsDefintions s = defs_loop (configs s) ([], s)"

text \<open>
  \<open>takeSnapshot\<close>: the snapshot is a fresh object that holds primitives only, so it is
  returned as its list of properties.
\<close>

definition takeSnapshot :: "clazz \<Rightarrow> state \<Rightarrow> error + obj" where
  "takeSnapshot configClass s =
     (case getConfigValueOptionsMap configClass of
        Inl e \<Rightarrow> Inl e
      | Inr flds \<Rightarrow>
          Inr (fold (\<lambda>(property, r) snapshot. obj_set property (fo_value (optobjs s r)) snapshot)
                 flds []))"

text \<open>
  \<open>restoreSnapshot\<close>: the \<open>for ... in\<close> loop over the snapshot's properties; a failing
  \<open>get\<close> ends the loop with the assignments made so far kept.
\<close>

fun restore_loop :: "clazz \<Rightarrow> obj \<Rightarrow> string list \<Rightarrow> state \<Rightarrow> error option \<times> state" where
  "restore_loop configClass snapshot [] s = (None, s)"
| "restore_loop configClass snapshot (property # rest) s =
     (case get configClass s of
        Inl e \<Rightarrow> (Some e, s)
      | Inr a \<Rightarrow> restore_loop configClass snapshot rest (assign a property (obj_get snapshot property) s))"

definition restoreSnapshot :: "clazz \<Rightarrow> obj \<Rightarrow> state \<Rightarrow> error option \<times> state" where
  "restoreSnapshot configClass snapshot s = restore_loop configClass snapshot (map fst snapshot) s"

section \<open>The overlays, seen on the instance\<close>

text \<open>
  The two loops of \<open>add\<close> write to one object only. These functions give the
  properties of that object after a loop from its properties before: for every key that
  is a known config name, in order, the property named by the options of that key is set.
  \<open>yaml_layer\<close> takes the values from the loaded file, \<open>env_layer\<close> from the coercing
  reader of the environment. \<open>yaml_source\<close> is what step 2 gets to work with: no values
  when the path is omitted or empty, else the values of the file or the loader's failure.
\<close>

definition assign_known ::
  "(string \<times> addr) list \<Rightarrow> (addr \<Rightarrow> field_options) \<Rightarrow> (string \<Rightarrow> field_options \<Rightarrow> jsval) \<Rightarrow>
   string list \<Rightarrow> obj \<Rightarrow> obj" where
  "assign_known m opts val keys ob =
     fold (\<lambda>key o'. case Map_get m key of
                        None \<Rightarrow> o'
                      | Some r \<Rightarrow> obj_set (fo_property (opts r)) (val key (opts r)) o')
          (filter (\<lambda>key. Map_has m key) keys) ob"

definition yaml_layer :: "clazz \<Rightarrow> (addr \<Rightarrow> field_options) \<Rightarrow> obj \<Rightarrow> obj \<Rightarrow> obj" where
  "yaml_layer c opts yamlValues ob =
     assign_known (getConfigValueNames c) opts (\<lambda>key fo. obj_get yamlValues key)
       (map fst yamlValues) ob"

definition env_layer :: "world \<Rightarrow> clazz \<Rightarrow> (addr \<Rightarrow> field_options) \<Rightarrow> obj \<Rightarrow> obj" where
  "env_layer w c opts ob =
     assign_known (getConfigValueNames c) opts
       (\<lambda>key fo. loadEnvironmentVariable w key (fo_type fo)) (getEnvironmentVariableKeys w) ob"

definition yaml_source :: "world \<Rightarrow> config_options \<Rightarrow> error + obj" where
  "yaml_source w options =
     (case configYmlPath options of
        None \<Rightarrow> Inr []
      | Some path \<Rightarrow>
          if path = [] then Inr []
          else (case loadConfigfromYaml w path of
                  None \<Rightarrow> Inl (MissingYamlFile path)
                | Some yamlValues \<Rightarrow> Inr yamlValues))"

section \<open>Callers\<close>

text \<open>
  What a caller can do with the manager and with the references it hands out: call one
  of its methods (\<open>add\<close> with the environment and files of that moment), or write a
  property of an object through a reference.
\<close>

datatype op =
    Add world clazz config_options
  | Get clazz
  | GetConfigsDefintions
  | TakeSnapshot clazz
  | RestoreSnapshot clazz obj
  | Write addr string jsval

fun step :: "op \<Rightarrow> state \<Rightarrow> state" where
  "step (Add w c options) s = snd (add w c options s)"
| "step (Get c) s = s"
| "step GetConfigsDefintions s = snd (getConfigsDefintions s)"
| "step (TakeSnapshot c) s = s"
| "step (RestoreSnapshot c snapshot) s = snd (restoreSnapshot c snapshot s)"
| "step (Write a p v) s = assign a p v s"

section \<open>The example class of the tests\<close>

definition helloOptions :: field_options where
  "helloOptions =
     \<lparr>fo_name = ''HELLO_WORLD'', fo_description = ''X'', fo_required = False,
      fo_recommendedValue = Undefined, fo_type = TString,
      fo_property = ''propertyDefaultHelloWorld'', fo_value = Undefined\<rparr>"

definition ExampleClass :: clazz where
  "ExampleClass =
     \<lparr>cls_name = ''ExampleClass'',
      cls_new = [(''propertyDefaultHelloWorld'', Str ''Hi'')],
      cls_by_name = [(''HELLO_WORLD'', 0)],
      cls_by_property = [(''propertyDefaultHelloWorld'', 0)]\<rparr>"

text \<open>The options object of the decorated property at address 0, nothing registered.\<close>

definition st_hello :: state where
  "st_hello = \<lparr>configs = [], objs = (\<lambda>a. []), optobjs = (\<lambda>a. helloOptions), nxt = 1\<rparr>"

text \<open>No YAML file; the environment sets \<open>HELLO_WORLD\<close> to \<open>HeyWorld\<close>.\<close>

definition envWorld :: world where
  "envWorld =
     \<lparr>loadConfigfromYaml = (\<lambda>path. None),
      getEnvironmentVariableKeys = [''HOME'', ''HELLO_WORLD''],
      loadEnvironmentVariable = (\<lambda>key t. if key = ''HELLO_WORLD'' then Str ''HeyWorld'' else Str ''/root''),
      fieldOptionsValid = (\<lambda>fo. True)\<rparr>"

text \<open>No YAML file and no environment variable of the class.\<close>

definition plainWorld :: world where
  "plainWorld =
     \<lparr>loadConfigfromYaml = (\<lambda>path. None),
      getEnvironmentVariableKeys = [''HOME''],
      loadEnvironmentVariable = (\<lambda>key t. Str ''/root''),
      fieldOptionsValid = (\<lambda>fo. True)\<rparr>"

definition noOptions :: config_options where
  "noOptions = \<lparr>configYmlPath = None\<rparr>"

definition emptyPath :: config_options where
  "emptyPath = \<lparr>configYmlPath = Some []\<rparr>"

text \<open>A loader that finds \<open>HELLO_WORLD: "Yo World!"\<close> at every path.\<close>

definition yoLoader :: "string \<Rightarrow> obj option" where
  "yoLoader path = Some [(''HELLO_WORLD'', Str ''Yo World!'')]"

text \<open>
  The class \<open>Communicator\<close> of the examples: \<open>greeting\<close> is required and has no
  default, \<open>goodbye\<close> has a default, \<open>idleMessage\<close> is optional.
\<close>

definition greetingOptions :: field_options where
  "greetingOptions =
     \<lparr>fo_name = ''GREETING'', fo_description = ''They way you say hi to others'',
      fo_required = True, fo_recommendedValue = Str ''Hello'', fo_type = TString,
      fo_property = ''greeting'', fo_value = Undefined\<rparr>"

definition goodbyeOptions :: field_options where
  "goodbyeOptions =
     \<lparr>fo_name = ''GOODBYE_MESSAGE'', fo_description = ''The way you say goodbye. Optional.'',
      fo_required = False, fo_recommendedValue = Undefined, fo_type = TString,
      fo_property = ''goodbye'', fo_value = Undefined\<rparr>"

definition idleOptions :: field_options where
  "idleOptions =
     \<lparr>fo_name = ''IDLE_SOUND'', fo_description = ''What do you say when doing nothing?'',
      fo_required = False, fo_recommendedValue = Undefined, fo_type = TString,
      fo_property = ''idleMessage'', fo_value = Undefined\<rparr>"

definition Communicator :: clazz where
  "Communicator =
     \<lparr>cls_name = ''Communicator'',
      cls_new = [(''goodbye'', Str ''/me left the chat''),
                 (''nonConfigProperty'', Str ''I do not need a type'')],
      cls_by_name = [(''GREETING'', 1), (''GOODBYE_MESSAGE'', 2), (''IDLE_SOUND'', 3)],
      cls_by_property = [(''greeting'', 1), (''goodbye'', 2), (''idleMessage'', 3)]\<rparr>"

text \<open>The options objects of both classes at addresses 0 to 3, nothing registered.\<close>

definition st_meta :: state where
  "st_meta =
     \<lparr>configs = [], objs = (\<lambda>a. []),
      optobjs = (\<lambda>a. if a = 1 then greetingOptions else if a = 2 then goodbyeOptions
                      else if a = 3 then idleOptions else helloOptions),
      nxt = 4\<rparr>"

text \<open>The environment sets \<open>GOODBYE_MESSAGE\<close> to \<open>Bye\<close> and nothing else of the classes.\<close>

definition byeWorld :: world where
  "byeWorld =
     \<lparr>loadConfigfromYaml = (\<lambda>path. None),
      getEnvironmentVariableKeys = [''GOODBYE_MESSAGE''],
      loadEnvironmentVariable = (\<lambda>key t. Str ''Bye''),
      fieldOptionsValid = (\<lambda>fo. True)\<rparr>"

text \<open>
  A state with both classes registered, \<open>ExampleClass\<close> first, and the instances at
  addresses 5 and 7.
\<close>

definition st_both :: state where
  "st_both =
     \<lparr>configs = [(ExampleClass, 5), (Communicator, 7)],
      objs = (\<lambda>a. if a = 5 then cls_new ExampleClass else if a = 7 then cls_new Communicator else []),
      optobjs = optobjs st_meta,
      nxt = 8\<rparr>"

text \<open>
  A class with two required fields, \<open>a\<close> declared before \<open>b\<close>, neither with a default;
  their options objects at addresses 0 and 1, nothing registered.
\<close>

definition aOptions :: field_options where
  "aOptions =
     \<lparr>fo_name = ''A_NAME'', fo_description = ''first'', fo_required = True,
      fo_recommendedValue = Undefined, fo_type = TString,
      fo_property = ''a'', fo_value = Undefined\<rparr>"

definition bOptions :: field_options where
  "bOptions =
     \<lparr>fo_name = ''B_NAME'', fo_description = ''second'', fo_required = True,
      fo_recommendedValue = Undefined, fo_type = TString,
      fo_property = ''b'', fo_value = Undefined\<rparr>"

definition TwoRequired :: clazz where
  "TwoRequired =
     \<lparr>cls_name = ''TwoRequired'',
      cls_new = [],
      cls_by_name = [(''A_NAME'', 0), (''B_NAME'', 1)],
      cls_by_property = [(''a'', 0), (''b'', 1)]\<rparr>"

definition st_two :: state where
  "st_two =
     \<lparr>configs = [], objs = (\<lambda>a. []),
      optobjs = (\<lambda>a. if a = 0 then aOptions else bOptions),
      nxt = 2\<rparr>"

text \<open>
  \<open>ExampleClass\<close> registered on \<open>st_hello\<close> with nothing in the environment, and the
  same after the caller has written \<open>Hey World!\<close> to the property of the instance.
\<close>

definition st_added :: state where
  "st_added = snd (add plainWorld ExampleClass noOptions st_hello)"

definition st_written :: state where
  "st_written = step (Write 2 ''propertyDefaultHelloWorld'' (Str ''Hey World!'')) st_added"

section \<open>Well-formed registries\<close>

text \<open>
  The options objects that the metadata of the registered classes refers to, in the
  order of the registry and, within a class, of declaration.
\<close>

definition refs_of :: "(clazz \<times> addr) list \<Rightarrow> addr list" where
  "refs_of cs = concat (map (\<lambda>(c, a). map snd (cls_by_property c)) cs)"

definition meta_refs :: "state \<Rightarrow> addr list" where
  "meta_refs s = refs_of (configs s)"

text \<open>
  Every registered class has a field, and the options objects of its fields were
  allocated before.
\<close>

definition registry_ok :: "state \<Rightarrow> bool" where
  "registry_ok s =
     (list_all (\<lambda>(c, a). cls_by_property c \<noteq> []) (configs s) \<and>
      list_all (\<lambda>r. r < nxt s) (meta_refs s))"

lemmas example_defs =
  helloOptions_def ExampleClass_def st_hello_def envWorld_def plainWorld_def noOptions_def
  emptyPath_def yoLoader_def
  greetingOptions_def goodbyeOptions_def idleOptions_def Communicator_def st_meta_def byeWorld_def
  st_both_def aOptions_def bOptions_def TwoRequired_def st_two_def

lemmas manager_defs =
  add_def get_def set_new_def new_instance_def assign_def yaml_step_def yaml_overlay_def
  env_overlay_def validateConfigFieldOptions_def validateRequiredConfigValues_def
  getConfigValueOptionsMap_def getConfigValueNames_def Map_has_def Map_get_def
  has_value_def obj_get_def takeSnapshot_def restoreSnapshot_def getConfigsDefintions_def
  copy_options_def yaml_source_def yaml_layer_def env_layer_def assign_known_def

section \<open>Basic facts\<close>

subsection \<open>Map\<close>

lemma Map_has_iff_get: "Map_has m k \<longleftrightarrow> Map_get m k \<noteq> None"
  by (induction m) (auto simp: Map_has_def Map_get_def)

lemma Map_get_set_same: "Map_get (Map_set k v m) k = Some v"
  by (induction m) (auto simp: Map_get_def)

lemma Map_get_set_other: "k' \<noteq> k \<Longrightarrow> Map_get (Map_set k v m) k' = Map_get m k'"
  by (induction m) (auto simp: Map_get_def)

lemma Map_has_set: "Map_has (Map_set k v m) k' \<longleftrightarrow> k' = k \<or> Map_has m k'"
  by (cases "k' = k") (simp_all add: Map_has_iff_get Map_get_set_same Map_get_set_other)

lemma Map_set_new: "\<not> Map_has m k \<Longrightarrow> Map_set k v m = m @ [(k, v)]"
  by (induction m) (auto simp: Map_has_def)

lemma Map_set_last: "\<not> Map_has m k \<Longrightarrow> Map_set k v' (m @ [(k, v)]) = m @ [(k, v')]"
  by (induction m) (auto simp: Map_has_def)

lemma Map_set_keys: "Map_has m k \<Longrightarrow> map fst (Map_set k v m) = map fst m"
  by (induction m) (force simp: Map_has_def)+

subsection \<open>What the loops of \<open>add\<close> leave alone\<close>

lemma assign_frame:
  "configs (assign a p v s) = configs s" "optobjs (assign a p v s) = optobjs s"
  "nxt (assign a p v s) = nxt s" "b \<noteq> a \<Longrightarrow> objs (assign a p v s) b = objs s b"
  by (simp_all add: assign_def)

lemma fold_keeps:
  assumes "\<And>x s. Q (f x s) = Q s"
  shows "Q (fold f xs s) = Q s"
  using assms by (induction xs arbitrary: s) simp_all

lemma yaml_overlay_frame:
  "configs (yaml_overlay m y a s) = configs s" "optobjs (yaml_overlay m y a s) = optobjs s"
  "nxt (yaml_overlay m y a s) = nxt s" "b \<noteq> a \<Longrightarrow> objs (yaml_overlay m y a s) b = objs s b"
  unfolding yaml_overlay_def
  by (rule fold_keeps, simp add: assign_frame split: option.splits)+

lemma env_overlay_frame:
  "configs (env_overlay w m a s) = configs s" "optobjs (env_overlay w m a s) = optobjs s"
  "nxt (env_overlay w m a s) = nxt s" "b \<noteq> a \<Longrightarrow> objs (env_overlay w m a s) b = objs s b"
  unfolding env_overlay_def
  by (rule fold_keeps, simp add: assign_frame split: option.splits)+

lemma yaml_step_frame:
  assumes "yaml_step w m options a s = Inr s'"
  shows "configs s' = configs s" "optobjs s' = optobjs s" "nxt s' = nxt s"
    "b \<noteq> a \<Longrightarrow> objs s' b = objs s b"
  using assms by (auto simp: yaml_step_def yaml_overlay_frame split: option.splits if_splits)

lemma set_new_simps:
  "configs (set_new c s) = Map_set c (nxt s) (configs s)"
  "optobjs (set_new c s) = optobjs s"
  "nxt (set_new c s) = Suc (nxt s)"
  "objs (set_new c s) = (objs s)(nxt s := cls_new c)"
  by (simp_all add: set_new_def new_instance_def)


subsection \<open>The steps of \<open>add\<close> on a class that is new and whose options are valid\<close>

lemma add_unfold:
  assumes "\<not> Map_has (configs s) c" and "validateConfigFieldOptions w s c = None"
  shows "add w c options s =
    (case yaml_step w (getConfigValueNames c) options (nxt s) (set_new c s) of
       Inl e \<Rightarrow> (Inl e, set_new c s)
     | Inr s3 \<Rightarrow>
         (case validateRequiredConfigValues (env_overlay w (getConfigValueNames c) (nxt s) s3) (nxt s) c of
            Some e \<Rightarrow> (Inl e, env_overlay w (getConfigValueNames c) (nxt s) s3)
          | None \<Rightarrow> (Inr (Suc (nxt s)), set_new c (env_overlay w (getConfigValueNames c) (nxt s) s3))))"
  using assms
  by (auto simp: add_def Let_def set_new_simps Map_get_set_same env_overlay_frame yaml_step_frame
      split: sum.splits option.splits)

lemma add_success_get:
  assumes "add w c options s = (Inr a, s')"
  shows "Map_get (configs s') c = Some a"
  using assms
  by (auto simp: add_def Let_def split: if_splits option.splits sum.splits)

lemma add_keeps_others:
  assumes "Map_get (configs s) c = Some a"
  shows "Map_get (configs (snd (add w c' options s))) c = Some a"
proof (cases "Map_has (configs s) c' \<or> validateConfigFieldOptions w s c' \<noteq> None")
  case True
  then show ?thesis using assms by (auto simp: add_def)
next
  case False
  then have new: "\<not> Map_has (configs s) c'" and ok: "validateConfigFieldOptions w s c' = None"
    by auto
  from new assms have ne: "c \<noteq> c'" by (auto simp: Map_has_iff_get)
  show ?thesis
    using assms ne
    by (auto simp: add_unfold [OF new ok] set_new_simps Map_get_set_other env_overlay_frame
        yaml_step_frame split: sum.splits option.splits)
qed

subsection \<open>The registry map under the other operations\<close>

lemma copy_options_frame:
  "configs (snd (fold copy_options rs acc)) = configs (snd acc)"
  "objs (snd (fold copy_options rs acc)) = objs (snd acc)"
  by (induction rs arbitrary: acc) (auto simp: copy_options_def split: prod.splits)

lemma defs_loop_frame:
  "configs (snd (defs_loop cs acc)) = configs (snd acc) \<and>
   objs (snd (defs_loop cs acc)) = objs (snd acc)"
proof (induction cs arbitrary: acc)
  case Nil
  show ?case by (cases acc) simp
next
  case (Cons ca cs)
  obtain c a where ca: "ca = (c, a)" by (cases ca)
  obtain defs s where acc: "acc = (defs, s)" by (cases acc)
  show ?case
    using Cons.IH [of "fold copy_options (map snd (cls_by_property c)) (defs, s)"]
      copy_options_frame [of "map snd (cls_by_property c)" "(defs, s)"]
    by (simp add: ca acc getConfigValueOptionsMap_def)
qed

lemma getConfigsDefintions_configs:
  "configs (snd (getConfigsDefintions s)) = configs s"
  using defs_loop_frame [of "configs s" "([], s)"]
  by (simp add: getConfigsDefintions_def)

lemma restore_loop_configs:
  "configs (snd (restore_loop c snapshot ks s)) = configs s"
  by (induction ks arbitrary: s) (auto simp: assign_frame split: sum.splits)

lemma step_keeps_registered:
  assumes "Map_get (configs s) c = Some a"
  shows "Map_get (configs (step x s)) c = Some a"
  using assms
  by (cases x)
     (simp_all add: add_keeps_others getConfigsDefintions_configs restoreSnapshot_def
        restore_loop_configs assign_frame)

lemma steps_keep_registered:
  assumes "Map_get (configs s) c = Some a"
  shows "Map_get (configs (fold step xs s)) c = Some a"
  using assms by (induction xs arbitrary: s) (simp_all add: step_keeps_registered)

subsection \<open>The loops of \<open>add\<close> on the instance\<close>

lemma fold_assign_objs:
  assumes "optobjs s = opts"
  shows "objs (fold (\<lambda>key st. case Map_get m key of None \<Rightarrow> st
        | Some r \<Rightarrow> assign a (fo_property (optobjs st r)) (val key (optobjs st r)) st) ks s) a =
   fold (\<lambda>key o'. case Map_get m key of None \<Rightarrow> o'
        | Some r \<Rightarrow> obj_set (fo_property (opts r)) (val key (opts r)) o') ks (objs s a)"
  using assms
proof (induction ks arbitrary: s)
  case Nil
  show ?case by simp
next
  case (Cons k ks)
  show ?case
  proof (cases "Map_get m k")
    case None
    then show ?thesis using Cons.IH [OF Cons.prems] by simp
  next
    case (Some r)
    let ?s1 = "assign a (fo_property (opts r)) (val k (opts r)) s"
    have 1: "optobjs ?s1 = opts" using Cons.prems by (simp add: assign_frame)
    have 2: "objs ?s1 a = obj_set (fo_property (opts r)) (val k (opts r)) (objs s a)"
      by (simp add: assign_def)
    show ?thesis using Cons.IH [OF 1] 2 Some Cons.prems by simp
  qed
qed

lemma yaml_overlay_objs:
  "objs (yaml_overlay (getConfigValueNames c) y a s) a = yaml_layer c (optobjs s) y (objs s a)"
  unfolding yaml_overlay_def yaml_layer_def assign_known_def
  using fold_assign_objs [OF refl, where m = "getConfigValueNames c" and a = a and val = "\<lambda>key fo. obj_get y key"]
  by simp

lemma env_overlay_objs:
  "objs (env_overlay w (getConfigValueNames c) a s) a = env_layer w c (optobjs s) (objs s a)"
  unfolding env_overlay_def env_layer_def assign_known_def
  using fold_assign_objs [OF refl, where m = "getConfigValueNames c" and a = a
      and val = "\<lambda>key fo. loadEnvironmentVariable w key (fo_type fo)"]
  by simp

lemma yaml_layer_empty: "yaml_layer c opts [] ob = ob"
  by (simp add: yaml_layer_def assign_known_def)

lemma yaml_step_source:
  "yaml_step w m options a s =
     (case yaml_source w options of Inl e \<Rightarrow> Inl e | Inr y \<Rightarrow> Inr (yaml_overlay m y a s))"
  by (simp add: yaml_step_def yaml_source_def yaml_overlay_def split: option.splits)

lemma first_missing_Some:
  assumes "first_missing opts inst flds = Some (p, r)"
  shows "(p, r) \<in> set flds \<and> fo_required (opts r) \<and> \<not> has_value (obj_get inst p)"
  using assms by (induction flds) (auto split: if_splits)

lemma first_missing_None:
  assumes "first_missing opts inst flds = None" and "(p, r) \<in> set flds" and "fo_required (opts r)"
  shows "has_value (obj_get inst p)"
  using assms by (induction flds) (auto split: if_splits)

lemma first_missing_at:
  assumes "list_all (\<lambda>(q, t). \<not> fo_required (opts t) \<or> has_value (obj_get inst q)) pre"
    and "fo_required (opts r)" and "\<not> has_value (obj_get inst p)"
  shows "first_missing opts inst (pre @ (p, r) # post) = Some (p, r)"
  using assms by (induction pre) auto

lemma valid_has_fields:
  assumes "validateConfigFieldOptions w s c = None"
  shows "getConfigValueOptionsMap c = Inr (cls_by_property c)"
  using assms by (auto simp: validateConfigFieldOptions_def getConfigValueOptionsMap_def split: if_splits)

text \<open>The outcome of \<open>add\<close> in terms of the instance of step 1 after steps 2 and 3.\<close>

lemma add_steps:
  assumes new: "\<not> Map_has (configs s) c" and ok: "validateConfigFieldOptions w s c = None"
  shows "add w c options s =
    (case yaml_source w options of
       Inl e \<Rightarrow> (Inl e, set_new c s)
     | Inr y \<Rightarrow>
         (let s4 = env_overlay w (getConfigValueNames c) (nxt s) (yaml_overlay (getConfigValueNames c) y (nxt s) (set_new c s))
          in case first_missing (optobjs s) (env_layer w c (optobjs s) (yaml_layer c (optobjs s) y (cls_new c))) (cls_by_property c) of
               Some (p, r) \<Rightarrow> (Inl (MissingRequiredField p (fo_name (optobjs s r))), s4)
             | None \<Rightarrow> (Inr (Suc (nxt s)), set_new c s4)))"
  by (simp add: add_unfold [OF new ok] yaml_step_source validateRequiredConfigValues_def
      valid_has_fields [OF ok] env_overlay_objs yaml_overlay_objs env_overlay_frame yaml_overlay_frame
      set_new_simps Let_def split: sum.splits option.splits)


lemma get_registered: "Map_get (configs s) c = Some a \<Longrightarrow> get c s = Inr a"
  by (simp add: get_def Map_has_iff_get)

subsection \<open>The copying loops of the definitions export\<close>

lemma copy_fold:
  assumes "\<forall>r\<in>set rs. r < nxt s"
  shows "\<exists>ns s'. fold copy_options rs (defs, s) = (defs @ ns, s') \<and>
           nxt s' = nxt s + length rs \<and> distinct ns \<and>
           (\<forall>d\<in>set ns. nxt s \<le> d \<and> d < nxt s') \<and>
           (\<forall>a<nxt s. optobjs s' a = optobjs s a) \<and>
           map (optobjs s') ns = map (optobjs s) rs \<and>
           configs s' = configs s \<and> objs s' = objs s"
  using assms
proof (induction rs arbitrary: defs s)
  case Nil
  show ?case by simp
next
  case (Cons r rs)
  let ?s1 = "s\<lparr>optobjs := (optobjs s)(nxt s := optobjs s r), nxt := Suc (nxt s)\<rparr>"
  have step: "copy_options r (defs, s) = (defs @ [nxt s], ?s1)"
    by (simp add: copy_options_def)
  have "\<forall>r'\<in>set rs. r' < nxt ?s1" using Cons.prems by auto
  from Cons.IH [OF this, of "defs @ [nxt s]"] obtain ns s' where
    f: "fold copy_options rs (defs @ [nxt s], ?s1) = ((defs @ [nxt s]) @ ns, s')"
    and n: "nxt s' = nxt ?s1 + length rs"
    and d: "distinct ns"
    and b: "\<forall>d\<in>set ns. nxt ?s1 \<le> d \<and> d < nxt s'"
    and o: "\<forall>a<nxt ?s1. optobjs s' a = optobjs ?s1 a"
    and m: "map (optobjs s') ns = map (optobjs ?s1) rs"
    and c: "configs s' = configs ?s1" "objs s' = objs ?s1"
    by blast
  have m': "map (optobjs ?s1) rs = map (optobjs s) rs"
    using Cons.prems by auto
  have here: "optobjs s' (nxt s) = optobjs s r" using o by simp
  have old: "\<forall>a<nxt s. optobjs s' a = optobjs s a" using o by simp
  have fresh: "nxt s \<notin> set ns" using b by auto
  have bnd: "\<forall>d\<in>set (nxt s # ns). nxt s \<le> d \<and> d < nxt s'" using b n by auto
  have "fold copy_options (r # rs) (defs, s) = (defs @ (nxt s # ns), s')"
    using f by (simp add: step)
  moreover have "nxt s' = nxt s + length (r # rs)" using n by simp
  moreover have "distinct (nxt s # ns)" using d fresh by simp
  moreover have "map (optobjs s') (nxt s # ns) = map (optobjs s) (r # rs)"
    using m m' here by simp
  moreover have "configs s' = configs s" "objs s' = objs s" using c by simp_all
  ultimately show ?case using bnd old by blast
qed

lemma defs_loop_spec:
  assumes "list_all (\<lambda>(c, a). cls_by_property c \<noteq> []) cs"
    and "\<forall>r\<in>set (refs_of cs). r < nxt s"
  shows "\<exists>ns s'. defs_loop cs (defs, s) = (Inr (defs @ ns), s') \<and>
           nxt s' = nxt s + length (refs_of cs) \<and> distinct ns \<and>
           (\<forall>d\<in>set ns. nxt s \<le> d \<and> d < nxt s') \<and>
           (\<forall>a<nxt s. optobjs s' a = optobjs s a) \<and>
           map (optobjs s') ns = map (optobjs s) (refs_of cs) \<and>
           configs s' = configs s \<and> objs s' = objs s"
  using assms
proof (induction cs arbitrary: defs s)
  case Nil
  show ?case by (simp add: refs_of_def)
next
  case (Cons ca cs)
  obtain c a where ca: "ca = (c, a)" by (cases ca)
  let ?rs = "map snd (cls_by_property c)"
  have fl: "getConfigValueOptionsMap c = Inr (cls_by_property c)"
    using Cons.prems(1) ca by (simp add: getConfigValueOptionsMap_def)
  have refs: "refs_of (ca # cs) = ?rs @ refs_of cs" by (simp add: refs_of_def ca)
  have "\<forall>r\<in>set ?rs. r < nxt s" using Cons.prems(2) refs by auto
  from copy_fold [OF this, of defs] obtain ns1 s1 where
    f1: "fold copy_options ?rs (defs, s) = (defs @ ns1, s1)"
    and n1: "nxt s1 = nxt s + length ?rs"
    and d1: "distinct ns1"
    and b1: "\<forall>d\<in>set ns1. nxt s \<le> d \<and> d < nxt s1"
    and o1: "\<forall>a<nxt s. optobjs s1 a = optobjs s a"
    and m1: "map (optobjs s1) ns1 = map (optobjs s) ?rs"
    and c1: "configs s1 = configs s" "objs s1 = objs s"
    by blast
  have p1: "list_all (\<lambda>(c, a). cls_by_property c \<noteq> []) cs" using Cons.prems(1) by simp
  have p2: "\<forall>r\<in>set (refs_of cs). r < nxt s1"
  proof
    fix r assume "r \<in> set (refs_of cs)"
    then have "r < nxt s" using Cons.prems(2) refs by simp
    then show "r < nxt s1" using n1 by simp
  qed
  from Cons.IH [OF p1 p2, of "defs @ ns1"] obtain ns2 s' where
    f2: "defs_loop cs (defs @ ns1, s1) = (Inr ((defs @ ns1) @ ns2), s')"
    and n2: "nxt s' = nxt s1 + length (refs_of cs)"
    and d2: "distinct ns2"
    and b2: "\<forall>d\<in>set ns2. nxt s1 \<le> d \<and> d < nxt s'"
    and o2: "\<forall>a<nxt s1. optobjs s' a = optobjs s1 a"
    and m2: "map (optobjs s') ns2 = map (optobjs s1) (refs_of cs)"
    and c2: "configs s' = configs s1" "objs s' = objs s1"
    by blast
  have old: "\<forall>a<nxt s. optobjs s' a = optobjs s a" using o1 o2 n1 by simp
  have first: "map (optobjs s') ns1 = map (optobjs s) ?rs"
  proof -
    have "map (optobjs s') ns1 = map (optobjs s1) ns1" using o2 b1 by simp
    then show ?thesis using m1 by simp
  qed
  have rest: "map (optobjs s1) (refs_of cs) = map (optobjs s) (refs_of cs)"
    using o1 Cons.prems(2) refs by simp
  have res: "defs_loop (ca # cs) (defs, s) = (Inr (defs @ (ns1 @ ns2)), s')"
    using f2 by (simp add: ca fl f1)
  have nx: "nxt s' = nxt s + length (refs_of (ca # cs))" using n2 n1 refs by simp
  have mp: "map (optobjs s') (ns1 @ ns2) = map (optobjs s) (refs_of (ca # cs))"
    using first m2 rest by (simp only: refs map_append)
  have dis: "distinct (ns1 @ ns2)" using d1 d2 b1 b2 by fastforce
  have bnd: "\<forall>d\<in>set (ns1 @ ns2). nxt s \<le> d \<and> d < nxt s'"
    using b1 b2 n1 n2 by fastforce
  show ?case using res nx old mp dis bnd c1 c2 by (metis (no_types, lifting))
qed


lemma add_configs_keys:
  "map fst (configs (snd (add w c options s))) =
     (if Map_has (configs s) c \<or> validateConfigFieldOptions w s c \<noteq> None then map fst (configs s)
      else map fst (configs s) @ [c])"
proof (cases "Map_has (configs s) c \<or> validateConfigFieldOptions w s c \<noteq> None")
  case True
  then show ?thesis by (auto simp: add_def)
next
  case False
  then have new: "\<not> Map_has (configs s) c" and ok: "validateConfigFieldOptions w s c = None"
    by auto
  show ?thesis
    using new ok
    by (auto simp: add_steps [OF new ok] Let_def set_new_simps env_overlay_frame yaml_overlay_frame
        Map_set_new Map_set_last split: sum.splits option.splits)
qed

lemma add_nxt_mono: "nxt s \<le> nxt (snd (add w c options s))"
proof (cases "Map_has (configs s) c \<or> validateConfigFieldOptions w s c \<noteq> None")
  case True
  then show ?thesis by (auto simp: add_def)
next
  case False
  then have new: "\<not> Map_has (configs s) c" and ok: "validateConfigFieldOptions w s c = None"
    by auto
  show ?thesis
    by (auto simp: add_steps [OF new ok] Let_def set_new_simps env_overlay_frame yaml_overlay_frame
        split: sum.splits option.splits)
qed

lemma refs_of_keys: "map fst cs = map fst cs' \<Longrightarrow> refs_of cs = refs_of cs'"
proof (induction cs arbitrary: cs')
  case Nil
  then show ?case by (simp add: refs_of_def)
next
  case (Cons x cs)
  then obtain y ys where "cs' = y # ys" "fst x = fst y" "map fst cs = map fst ys" by (cases cs') auto
  then show ?case using Cons.IH [of ys] by (cases x; cases y) (simp add: refs_of_def)
qed

lemma has_fields_keys:
  "list_all (\<lambda>(c, a). cls_by_property c \<noteq> []) cs = list_all (\<lambda>c. cls_by_property c \<noteq> []) (map fst cs)"
  by (induction cs) auto

lemma registry_ok_add:
  assumes inv: "registry_ok s" and alloc: "\<forall>r\<in>set (map snd (cls_by_property c)). r < nxt s"
  shows "registry_ok (snd (add w c options s))"
proof (cases "Map_has (configs s) c \<or> validateConfigFieldOptions w s c \<noteq> None")
  case True
  then show ?thesis using inv by (auto simp: add_def)
next
  case False
  then have ok: "validateConfigFieldOptions w s c = None" by auto
  let ?s' = "snd (add w c options s)"
  have keys: "map fst (configs ?s') = map fst (configs s @ [(c, 0)])"
    using False by (simp add: add_configs_keys)
  have ne: "cls_by_property c \<noteq> []"
    using valid_has_fields [OF ok] by (auto simp: getConfigValueOptionsMap_def split: if_splits)
  have r: "refs_of (configs ?s') = refs_of (configs s) @ map snd (cls_by_property c)"
    using refs_of_keys [OF keys] by (simp add: refs_of_def)
  have "list_all (\<lambda>(c, a). cls_by_property c \<noteq> []) (configs ?s')"
    using inv ne keys by (simp add: has_fields_keys registry_ok_def)
  moreover have "list_all (\<lambda>r. r < nxt ?s') (refs_of (configs ?s'))"
    using inv alloc add_nxt_mono [of s w c options]
    by (auto simp: r registry_ok_def meta_refs_def list_all_iff)
  ultimately show ?thesis by (simp add: registry_ok_def meta_refs_def)
qed

subsection \<open>Well-formed registries stay well-formed\<close>

lemma registry_ok_empty: "configs s = [] \<Longrightarrow> registry_ok s"
  by (simp add: registry_ok_def meta_refs_def refs_of_def)

lemma registry_ok_getConfigsDefintions:
  assumes "registry_ok s"
  shows "registry_ok (snd (getConfigsDefintions s))"
proof -
  from assms have p1: "list_all (\<lambda>(c, a). cls_by_property c \<noteq> []) (configs s)"
    and p2: "\<forall>r\<in>set (refs_of (configs s)). r < nxt s"
    by (simp_all add: registry_ok_def meta_refs_def list_all_iff)
  from defs_loop_spec [OF p1 p2, of "[]"] obtain ns s' where
    "defs_loop (configs s) ([], s) = (Inr ([] @ ns), s')"
    "nxt s' = nxt s + length (refs_of (configs s))" "configs s' = configs s"
    by blast
  then show ?thesis
    using p1 p2 by (auto simp: getConfigsDefintions_def registry_ok_def meta_refs_def list_all_iff)
qed

lemma restore_loop_nxt: "nxt (snd (restore_loop c snapshot ks s)) = nxt s"
  by (induction ks arbitrary: s) (auto simp: assign_frame split: sum.splits)

lemma registry_ok_step:
  assumes "registry_ok s"
    and "\<And>w c options. x = Add w c options \<Longrightarrow> \<forall>r\<in>set (map snd (cls_by_property c)). r < nxt s"
  shows "registry_ok (step x s)"
proof (cases x)
  case (Add w c options)
  then show ?thesis using assms registry_ok_add by simp
next
  case GetConfigsDefintions
  then show ?thesis using assms(1) by (simp add: registry_ok_getConfigsDefintions)
next
  case (RestoreSnapshot c snapshot)
  then show ?thesis
    using assms(1)
    by (simp add: registry_ok_def meta_refs_def restoreSnapshot_def restore_loop_nxt restore_loop_configs)
next
  case (Write a p v)
  then show ?thesis using assms(1) by (simp add: registry_ok_def meta_refs_def assign_frame)
qed (use assms(1) in simp_all)

subsection \<open>The \<open>TypeError\<close> branches are never taken\<close>

lemma add_no_TypeError: "fst (add w c options s) \<noteq> Inl TypeError"
proof (cases "Map_has (configs s) c \<or> validateConfigFieldOptions w s c \<noteq> None")
  case True
  then show ?thesis
    by (auto simp: add_def validateConfigFieldOptions_def getConfigValueOptionsMap_def
        split: if_splits)
next
  case False
  then have new: "\<not> Map_has (configs s) c" and ok: "validateConfigFieldOptions w s c = None"
    by auto
  show ?thesis
    by (auto simp: add_steps [OF new ok] Let_def yaml_source_def split: sum.splits option.splits if_splits)
qed

lemma get_no_TypeError: "get c s \<noteq> Inl TypeError"
  by (auto simp: get_def Map_has_iff_get split: option.splits)

subsection \<open>The example states\<close>

lemma ExampleClass_sel:
  "cls_name ExampleClass = ''ExampleClass''"
  "cls_new ExampleClass = [(''propertyDefaultHelloWorld'', Str ''Hi'')]"
  "cls_by_name ExampleClass = [(''HELLO_WORLD'', 0)]"
  "cls_by_property ExampleClass = [(''propertyDefaultHelloWorld'', 0)]"
  by (simp_all add: ExampleClass_def)

lemma st_hello_sel:
  "configs st_hello = []" "optobjs st_hello a = helloOptions" "nxt st_hello = 1"
  by (simp_all add: st_hello_def)

lemma st_added_simps:
  "configs st_added = [(ExampleClass, 2)]"
  "objs st_added 2 = [(''propertyDefaultHelloWorld'', Str ''Hi'')]"
  "optobjs st_added = optobjs st_hello"
  "fst (add plainWorld ExampleClass noOptions st_hello) = Inr 2"
  unfolding st_added_def by (simp_all add: manager_defs example_defs)

lemma get_st_added: "get ExampleClass st_added = Inr 2"
  by (simp add: get_def Map_has_def Map_get_def st_added_simps)

section \<open>Registration: what the instance of a successful call holds\<close>

text \<open>
  C1. With the default \<open>Hi\<close> and the environment variable \<open>HELLO_WORLD\<close> set to
  \<open>HeyWorld\<close>, \<open>add\<close> succeeds, and the instance it returns, which is the one
  \<open>get\<close> returns afterwards, holds the default: the environment value was assigned to
  the instance of line 20 (address 1), and line 45 put a fresh instance in its place.
\<close>

theorem add_returns_fresh_defaults:
  "fst (add envWorld ExampleClass noOptions st_hello) = Inr 2 \<and>
   get ExampleClass (snd (add envWorld ExampleClass noOptions st_hello)) = Inr 2 \<and>
   obj_get (objs (snd (add envWorld ExampleClass noOptions st_hello)) 2) ''propertyDefaultHelloWorld''
     = Str ''Hi'' \<and>
   obj_get (objs (snd (add envWorld ExampleClass noOptions st_hello)) 1) ''propertyDefaultHelloWorld''
     = Str ''HeyWorld''"
  by (simp add: manager_defs example_defs)

section \<open>Snapshots\<close>

text \<open>
  C2. \<open>takeSnapshot\<close> has the declared properties as keys, but takes each value from
  the \<open>value\<close> attribute of the options object in the metadata, not from the instance:
  after the caller has written \<open>Hey World!\<close> to the property of the registered instance,
  the snapshot holds \<open>undefined\<close> for it, and no write to any object changes what
  \<open>takeSnapshot\<close> returns.
\<close>

theorem takeSnapshot_reads_metadata:
  "get ExampleClass st_written = Inr 2 \<and>
   obj_get (objs st_written 2) ''propertyDefaultHelloWorld'' = Str ''Hey World!'' \<and>
   takeSnapshot ExampleClass st_written = Inr [(''propertyDefaultHelloWorld'', Undefined)] \<and>
   (\<forall>a p v s. takeSnapshot ExampleClass (assign a p v s) = takeSnapshot ExampleClass s)"
proof -
  have w: "configs st_written = [(ExampleClass, 2)]"
    "objs st_written 2 = [(''propertyDefaultHelloWorld'', Str ''Hey World!'')]"
    "optobjs st_written = optobjs st_hello"
    by (simp_all add: st_written_def assign_def st_added_simps)
  have "get ExampleClass st_written = Inr 2"
    by (simp add: get_def Map_has_def Map_get_def w)
  moreover have "obj_get (objs st_written 2) ''propertyDefaultHelloWorld'' = Str ''Hey World!''"
    by (simp add: w obj_get_def)
  moreover have "takeSnapshot ExampleClass st_written = Inr [(''propertyDefaultHelloWorld'', Undefined)]"
    by (simp add: takeSnapshot_def getConfigValueOptionsMap_def w ExampleClass_sel st_hello_sel helloOptions_def)
  moreover have "takeSnapshot ExampleClass (assign a p v s) = takeSnapshot ExampleClass s" for a p v s
    by (simp add: takeSnapshot_def assign_frame split: sum.splits)
  ultimately show ?thesis by blast
qed

text \<open>
  C3. Taking a snapshot and restoring it at once is not the identity: the instance holds
  \<open>Hi\<close> before, the snapshot holds \<open>undefined\<close> (see C2), and after the restore the
  instance holds \<open>undefined\<close>.
\<close>

theorem restore_of_take_changes_instance:
  "takeSnapshot ExampleClass st_added = Inr [(''propertyDefaultHelloWorld'', Undefined)] \<and>
   obj_get (objs st_added 2) ''propertyDefaultHelloWorld'' = Str ''Hi'' \<and>
   fst (restoreSnapshot ExampleClass [(''propertyDefaultHelloWorld'', Undefined)] st_added) = None \<and>
   obj_get (objs (snd (restoreSnapshot ExampleClass [(''propertyDefaultHelloWorld'', Undefined)] st_added)) 2)
     ''propertyDefaultHelloWorld'' = Undefined"
  by (simp add: takeSnapshot_def getConfigValueOptionsMap_def restoreSnapshot_def get_st_added
      st_added_simps assign_def obj_get_def ExampleClass_sel st_hello_sel helloOptions_def)

text \<open>
  C4. \<open>restoreSnapshot\<close> does not check the keys of the snapshot against the declared
  properties: with the key \<open>unknownProperty\<close>, which is not a declared property of
  \<open>ExampleClass\<close>, it ends without an error and the instance has the new property.
\<close>

theorem restoreSnapshot_accepts_unknown_property:
  "Map_has (cls_by_property ExampleClass) ''unknownProperty'' = False \<and>
   restoreSnapshot ExampleClass [(''unknownProperty'', Str ''value'')] st_added
     = (None, assign 2 ''unknownProperty'' (Str ''value'') st_added) \<and>
   objs (snd (restoreSnapshot ExampleClass [(''unknownProperty'', Str ''value'')] st_added)) 2
     = [(''propertyDefaultHelloWorld'', Str ''Hi''), (''unknownProperty'', Str ''value'')]"
  by (simp add: restoreSnapshot_def get_st_added st_added_simps assign_def obj_get_def
      Map_has_def ExampleClass_sel)

text \<open>
  C5. For a class that is not registered \<open>get\<close> fails with \<open>NotRegistered\<close>, naming the
  class; \<open>restoreSnapshot\<close> with the empty snapshot does not call \<open>get\<close> at all and
  ends without an error, the state unchanged.
\<close>

theorem restoreSnapshot_empty_unregistered:
  "get ExampleClass st_hello = Inl (NotRegistered ''ExampleClass'') \<and>
   restoreSnapshot ExampleClass [] st_hello = (None, st_hello)"
  by (simp add: restoreSnapshot_def get_def Map_has_def st_hello_sel ExampleClass_sel)

section \<open>Registration: failures after the instance is stored\<close>

text \<open>
  C6. \<open>add\<close> stores the new instance in the registry before the YAML step, the
  environment step and the check of the required fields. So when \<open>add\<close> fails for a
  class that was not registered and whose field options are valid, the class is
  registered afterwards: \<open>get\<close> returns the instance created by the failed call, the
  class is the last key of the registry, and that instance holds either the defaults
  alone (the YAML file could not be loaded) or the defaults with the YAML and environment
  values assigned (a required field is missing).
\<close>

theorem add_failure_keeps_instance_registered:
  assumes new: "\<not> Map_has (configs s) c"
    and ok: "validateConfigFieldOptions w s c = None"
    and fail: "add w c options s = (Inl e, s')"
  shows "get c s' = Inr (nxt s) \<and> map fst (configs s') = map fst (configs s) @ [c] \<and>
         nxt s' = Suc (nxt s) \<and>
         ((yaml_source w options = Inl e \<and> objs s' (nxt s) = cls_new c) \<or>
          (\<exists>y p r. yaml_source w options = Inr y \<and>
             e = MissingRequiredField p (fo_name (optobjs s r)) \<and>
             objs s' (nxt s) = env_layer w c (optobjs s) (yaml_layer c (optobjs s) y (cls_new c))))"
proof (cases "yaml_source w options")
  case (Inl e')
  with fail have "e = e'" "s' = set_new c s"
    by (simp_all add: add_steps [OF new ok])
  moreover have "get c (set_new c s) = Inr (nxt s)"
    by (rule get_registered) (simp add: set_new_simps Map_get_set_same)
  ultimately show ?thesis using Inl new
    by (simp add: set_new_simps Map_set_new)
next
  case (Inr y)
  let ?inst = "env_layer w c (optobjs s) (yaml_layer c (optobjs s) y (cls_new c))"
  let ?s4 = "env_overlay w (getConfigValueNames c) (nxt s)
               (yaml_overlay (getConfigValueNames c) y (nxt s) (set_new c s))"
  from fail Inr obtain p r where
    e: "e = MissingRequiredField p (fo_name (optobjs s r))" and s': "s' = ?s4"
    by (auto simp: add_steps [OF new ok] Let_def split: option.splits)
  have cf: "configs ?s4 = configs s @ [(c, nxt s)]" and nx: "nxt ?s4 = Suc (nxt s)"
    using new by (simp_all add: env_overlay_frame yaml_overlay_frame set_new_simps Map_set_new)
  have ob: "objs ?s4 (nxt s) = ?inst"
    by (simp add: env_overlay_objs yaml_overlay_objs env_overlay_frame yaml_overlay_frame set_new_simps)
  have "Map_get (configs ?s4) c = Some (nxt s)"
    by (simp add: env_overlay_frame yaml_overlay_frame set_new_simps Map_get_set_same)
  then have "get c ?s4 = Inr (nxt s)" by (rule get_registered)
  then show ?thesis using Inr e s' cf nx ob by auto
qed

theorem add_failure_keeps_instance_registered_witness:
  "\<not> Map_has (configs st_meta) Communicator \<and>
   validateConfigFieldOptions byeWorld st_meta Communicator = None \<and>
   add byeWorld Communicator noOptions st_meta =
     (Inl (MissingRequiredField ''greeting'' ''GREETING''), snd (add byeWorld Communicator noOptions st_meta)) \<and>
   get Communicator (snd (add byeWorld Communicator noOptions st_meta)) = Inr 4 \<and>
   map fst (configs (snd (add byeWorld Communicator noOptions st_meta))) = [Communicator]"
proof -
  have h1: "\<not> Map_has (configs st_meta) Communicator"
    by (simp add: Map_has_def st_meta_def)
  have h2: "validateConfigFieldOptions byeWorld st_meta Communicator = None"
    by (simp add: validateConfigFieldOptions_def getConfigValueOptionsMap_def example_defs)
  have h3: "add byeWorld Communicator noOptions st_meta =
     (Inl (MissingRequiredField ''greeting'' ''GREETING''), snd (add byeWorld Communicator noOptions st_meta))"
    by (simp add: manager_defs example_defs)
  have "nxt st_meta = 4" "configs st_meta = []" by (simp_all add: st_meta_def)
  then show ?thesis
    using h1 h2 h3 add_failure_keeps_instance_registered [OF h1 h2 h3] by simp
qed

section \<open>Registration: required fields\<close>

text \<open>
  C7. For a class that is not registered yet, whose field options are valid and whose
  YAML step does not fail: if a field marked required has no non-empty, defined value on
  the instance after the defaults, the YAML values and the environment values, then
  \<open>add\<close> fails with \<open>MissingRequiredField\<close>, and the error names a required field that
  has no such value: the first one in declaration order, hence that field itself whenever
  no required field declared before it lacks a value.
\<close>

theorem add_names_first_missing_required:
  assumes new: "\<not> Map_has (configs s) c"
    and ok: "validateConfigFieldOptions w s c = None"
    and src: "yaml_source w options = Inr y"
    and mem: "(p, r) \<in> set (cls_by_property c)"
    and req: "fo_required (optobjs s r)"
    and nov: "\<not> has_value (obj_get (env_layer w c (optobjs s) (yaml_layer c (optobjs s) y (cls_new c))) p)"
  shows "(\<exists>p' r'. fst (add w c options s) = Inl (MissingRequiredField p' (fo_name (optobjs s r'))) \<and>
           first_missing (optobjs s) (env_layer w c (optobjs s) (yaml_layer c (optobjs s) y (cls_new c)))
             (cls_by_property c) = Some (p', r') \<and>
           (p', r') \<in> set (cls_by_property c) \<and> fo_required (optobjs s r') \<and>
           \<not> has_value (obj_get (env_layer w c (optobjs s) (yaml_layer c (optobjs s) y (cls_new c))) p')) \<and>
         (\<forall>pre post.
            cls_by_property c = pre @ (p, r) # post \<and>
            list_all (\<lambda>(q, t). \<not> fo_required (optobjs s t) \<or>
                        has_value (obj_get (env_layer w c (optobjs s) (yaml_layer c (optobjs s) y (cls_new c))) q)) pre
            \<longrightarrow> fst (add w c options s) = Inl (MissingRequiredField p (fo_name (optobjs s r))))"
proof (intro conjI allI impI)
  let ?inst = "env_layer w c (optobjs s) (yaml_layer c (optobjs s) y (cls_new c))"
  have "first_missing (optobjs s) ?inst (cls_by_property c) \<noteq> None"
  proof
    assume "first_missing (optobjs s) ?inst (cls_by_property c) = None"
    then have "has_value (obj_get ?inst p)" using mem req by (rule first_missing_None)
    with nov show False by contradiction
  qed
  then obtain p' r' where fm: "first_missing (optobjs s) ?inst (cls_by_property c) = Some (p', r')"
    by auto
  have "fst (add w c options s) = Inl (MissingRequiredField p' (fo_name (optobjs s r')))"
    by (simp add: add_steps [OF new ok] src fm Let_def)
  then show "\<exists>p' r'. fst (add w c options s) = Inl (MissingRequiredField p' (fo_name (optobjs s r'))) \<and>
           first_missing (optobjs s) ?inst (cls_by_property c) = Some (p', r') \<and>
           (p', r') \<in> set (cls_by_property c) \<and> fo_required (optobjs s r') \<and>
           \<not> has_value (obj_get ?inst p')"
    using fm first_missing_Some [OF fm] by blast
next
  fix pre post
  let ?inst = "env_layer w c (optobjs s) (yaml_layer c (optobjs s) y (cls_new c))"
  assume h: "cls_by_property c = pre @ (p, r) # post \<and>
     list_all (\<lambda>(q, t). \<not> fo_required (optobjs s t) \<or> has_value (obj_get ?inst q)) pre"
  then have fm: "first_missing (optobjs s) ?inst (cls_by_property c) = Some (p, r)"
    using first_missing_at [of "optobjs s" ?inst pre r p post] req nov by simp
  show "fst (add w c options s) = Inl (MissingRequiredField p (fo_name (optobjs s r)))"
    by (simp add: add_steps [OF new ok] src fm Let_def)
qed

theorem add_names_first_missing_required_witness:
  "\<not> Map_has (configs st_meta) Communicator \<and>
   validateConfigFieldOptions byeWorld st_meta Communicator = None \<and>
   yaml_source byeWorld noOptions = Inr [] \<and>
   (''greeting'', 1) \<in> set (cls_by_property Communicator) \<and>
   fo_required (optobjs st_meta 1) \<and>
   \<not> has_value (obj_get (env_layer byeWorld Communicator (optobjs st_meta)
                   (yaml_layer Communicator (optobjs st_meta) [] (cls_new Communicator))) ''greeting'') \<and>
   cls_by_property Communicator = [] @ (''greeting'', 1) # [(''goodbye'', 2), (''idleMessage'', 3)] \<and>
   fst (add byeWorld Communicator noOptions st_meta) = Inl (MissingRequiredField ''greeting'' ''GREETING'')"
proof -
  let ?inst = "env_layer byeWorld Communicator (optobjs st_meta)
                 (yaml_layer Communicator (optobjs st_meta) [] (cls_new Communicator))"
  have h1: "\<not> Map_has (configs st_meta) Communicator"
    by (simp add: Map_has_def st_meta_def)
  have h2: "validateConfigFieldOptions byeWorld st_meta Communicator = None"
    by (simp add: validateConfigFieldOptions_def getConfigValueOptionsMap_def example_defs)
  have h3: "yaml_source byeWorld noOptions = Inr []"
    by (simp add: yaml_source_def noOptions_def)
  have h4: "(''greeting'', 1) \<in> set (cls_by_property Communicator)"
    by (simp add: Communicator_def)
  have h5: "fo_required (optobjs st_meta 1)"
    by (simp add: st_meta_def greetingOptions_def)
  have inst: "?inst = [(''goodbye'', Str ''Bye''), (''nonConfigProperty'', Str ''I do not need a type'')]"
    by (simp add: manager_defs example_defs)
  have h6: "\<not> has_value (obj_get ?inst ''greeting'')"
    by (simp add: inst obj_get_def has_value_def)
  have h7: "cls_by_property Communicator = [] @ (''greeting'', 1) # [(''goodbye'', 2), (''idleMessage'', 3)]"
    by (simp add: Communicator_def)
  have nm: "fo_name (optobjs st_meta 1) = ''GREETING''"
    by (simp add: st_meta_def greetingOptions_def)
  have "fst (add byeWorld Communicator noOptions st_meta)
          = Inl (MissingRequiredField ''greeting'' (fo_name (optobjs st_meta 1)))"
    using add_names_first_missing_required [OF h1 h2 h3 h4 h5 h6, THEN conjunct2, rule_format,
        of "[]" "[(''goodbye'', 2), (''idleMessage'', 3)]"] h7
    by simp
  then show ?thesis using h1 h2 h3 h4 h5 h6 h7 nm by simp
qed

text \<open>
  C7, as it was stated, fails for a field that is not the first one missing: with the
  required fields \<open>a\<close> and \<open>b\<close> both without a value, \<open>b\<close> meets every condition of the
  claim, and \<open>add\<close> fails with the error that names \<open>a\<close>, not \<open>b\<close>.
\<close>

theorem add_names_other_field_counterexample:
  "\<not> Map_has (configs st_two) TwoRequired \<and>
   validateConfigFieldOptions plainWorld st_two TwoRequired = None \<and>
   yaml_source plainWorld noOptions = Inr [] \<and>
   (''b'', 1) \<in> set (cls_by_property TwoRequired) \<and>
   fo_required (optobjs st_two 1) \<and>
   fo_name (optobjs st_two 1) = ''B_NAME'' \<and>
   \<not> has_value (obj_get (env_layer plainWorld TwoRequired (optobjs st_two)
                   (yaml_layer TwoRequired (optobjs st_two) [] (cls_new TwoRequired))) ''b'') \<and>
   fst (add plainWorld TwoRequired noOptions st_two) = Inl (MissingRequiredField ''a'' ''A_NAME'') \<and>
   fst (add plainWorld TwoRequired noOptions st_two) \<noteq> Inl (MissingRequiredField ''b'' ''B_NAME'')"
  by (simp add: manager_defs example_defs)

section \<open>Registration: no YAML path\<close>

text \<open>
  C8. When \<open>configYmlPath\<close> is omitted or is the empty string, \<open>add\<close> does not use the
  YAML loader: its result and final state are the same with any other loader in its
  place. The environment step still runs: for a class that passes the first two checks,
  the instance created in step 1 ends with the environment values assigned directly on
  the defaults.
\<close>

theorem add_without_path_skips_yaml:
  assumes "configYmlPath options = None \<or> configYmlPath options = Some []"
  shows "add (w\<lparr>loadConfigfromYaml := y\<rparr>) c options s = add w c options s \<and>
         (\<not> Map_has (configs s) c \<and> validateConfigFieldOptions w s c = None \<longrightarrow>
            objs (snd (add w c options s)) (nxt s) = env_layer w c (optobjs s) (cls_new c))"
proof
  have "yaml_step (w\<lparr>loadConfigfromYaml := y\<rparr>) m options a t = yaml_step w m options a t" for m a t
    using assms by (auto simp: yaml_step_def)
  moreover have "validateConfigFieldOptions (w\<lparr>loadConfigfromYaml := y\<rparr>) s c = validateConfigFieldOptions w s c"
    by (simp add: validateConfigFieldOptions_def split: sum.splits)
  moreover have "env_overlay (w\<lparr>loadConfigfromYaml := y\<rparr>) m a t = env_overlay w m a t" for m a t
    by (simp add: env_overlay_def cong: option.case_cong)
  ultimately show "add (w\<lparr>loadConfigfromYaml := y\<rparr>) c options s = add w c options s"
    by (simp add: add_def Let_def cong: option.case_cong sum.case_cong)
next
  have src: "yaml_source w options = Inr []"
    using assms by (auto simp: yaml_source_def)
  show "\<not> Map_has (configs s) c \<and> validateConfigFieldOptions w s c = None \<longrightarrow>
        objs (snd (add w c options s)) (nxt s) = env_layer w c (optobjs s) (cls_new c)"
  proof
    assume h: "\<not> Map_has (configs s) c \<and> validateConfigFieldOptions w s c = None"
    then have new: "\<not> Map_has (configs s) c" and ok: "validateConfigFieldOptions w s c = None"
      by simp_all
    let ?s4 = "env_overlay w (getConfigValueNames c) (nxt s)
                 (yaml_overlay (getConfigValueNames c) [] (nxt s) (set_new c s))"
    have ob: "objs ?s4 (nxt s) = env_layer w c (optobjs s) (cls_new c)"
      by (simp add: env_overlay_objs yaml_overlay_objs env_overlay_frame yaml_overlay_frame
          set_new_simps yaml_layer_empty)
    have nx: "nxt ?s4 = Suc (nxt s)"
      by (simp add: env_overlay_frame yaml_overlay_frame set_new_simps)
    have "snd (add w c options s) = ?s4 \<or> snd (add w c options s) = set_new c ?s4"
      by (simp add: add_steps [OF new ok] src Let_def split: option.splits)
    then show "objs (snd (add w c options s)) (nxt s) = env_layer w c (optobjs s) (cls_new c)"
      using ob nx by (auto simp: set_new_simps)
  qed
qed

theorem add_without_path_skips_yaml_witness:
  "(configYmlPath emptyPath = None \<or> configYmlPath emptyPath = Some []) \<and>
   add (envWorld\<lparr>loadConfigfromYaml := yoLoader\<rparr>) ExampleClass emptyPath st_hello
     = add envWorld ExampleClass emptyPath st_hello \<and>
   objs (snd (add envWorld ExampleClass emptyPath st_hello)) 1
     = [(''propertyDefaultHelloWorld'', Str ''HeyWorld'')]"
proof -
  have h: "configYmlPath emptyPath = None \<or> configYmlPath emptyPath = Some []"
    by (simp add: emptyPath_def)
  have h1: "\<not> Map_has (configs st_hello) ExampleClass"
    by (simp add: Map_has_def st_hello_def)
  have h2: "validateConfigFieldOptions envWorld st_hello ExampleClass = None"
    by (simp add: validateConfigFieldOptions_def getConfigValueOptionsMap_def example_defs)
  have ev: "env_layer envWorld ExampleClass (optobjs st_hello) (cls_new ExampleClass)
              = [(''propertyDefaultHelloWorld'', Str ''HeyWorld'')]"
    by (simp add: manager_defs example_defs)
  have "nxt st_hello = 1" by (simp add: st_hello_def)
  then show ?thesis
    using h h1 h2 ev add_without_path_skips_yaml [OF h, of yoLoader envWorld ExampleClass st_hello]
    by simp
qed

section \<open>The definitions export\<close>

text \<open>
  C9. \<open>getConfigsDefintions\<close> returns the empty list, and changes nothing, when no class
  is registered. In a well-formed registry it returns one reference per declared field of
  the registered classes, in the order of the registry and then of declaration; the
  references are fresh, pairwise different objects whose contents equal the options
  objects of the metadata, so writing to any of them leaves every options object of the
  metadata as it was. The order of the registry is the order of registration: \<open>add\<close>
  puts a class that passes its first two checks after all the keys that are there, and
  changes no key otherwise. Well-formed means that every registered class has a field and
  that its options objects are allocated; the empty registry is, and every operation
  keeps it so (\<open>registry_ok_step\<close>).
\<close>

theorem getConfigsDefintions_copies:
  "(configs s = [] \<longrightarrow> getConfigsDefintions s = (Inr [], s)) \<and>
   (registry_ok s \<longrightarrow>
      (\<exists>defs s'. getConfigsDefintions s = (Inr defs, s') \<and>
         map (optobjs s') defs = map (optobjs s) (meta_refs s) \<and>
         distinct defs \<and> (\<forall>d\<in>set defs. nxt s \<le> d \<and> d < nxt s') \<and>
         (\<forall>m\<in>set (meta_refs s). \<forall>d\<in>set defs. \<forall>x. ((optobjs s')(d := x)) m = optobjs s m) \<and>
         configs s' = configs s \<and> objs s' = objs s)) \<and>
   (\<forall>w c options. map fst (configs (snd (add w c options s))) =
      (if Map_has (configs s) c \<or> validateConfigFieldOptions w s c \<noteq> None then map fst (configs s)
       else map fst (configs s) @ [c]))"
proof (intro conjI impI allI)
  assume "configs s = []"
  then show "getConfigsDefintions s = (Inr [], s)" by (simp add: getConfigsDefintions_def)
next
  assume inv: "registry_ok s"
  then have p1: "list_all (\<lambda>(c, a). cls_by_property c \<noteq> []) (configs s)"
    and p2: "\<forall>r\<in>set (refs_of (configs s)). r < nxt s"
    by (simp_all add: registry_ok_def meta_refs_def list_all_iff)
  from defs_loop_spec [OF p1 p2, of "[]"] obtain ns s' where
    f: "defs_loop (configs s) ([], s) = (Inr ([] @ ns), s')"
    and d: "distinct ns"
    and b: "\<forall>d\<in>set ns. nxt s \<le> d \<and> d < nxt s'"
    and o: "\<forall>a<nxt s. optobjs s' a = optobjs s a"
    and m: "map (optobjs s') ns = map (optobjs s) (refs_of (configs s))"
    and c: "configs s' = configs s" "objs s' = objs s"
    by blast
  have g: "getConfigsDefintions s = (Inr ns, s')" using f by (simp add: getConfigsDefintions_def)
  have ind: "\<forall>m\<in>set (meta_refs s). \<forall>d\<in>set ns. \<forall>x. ((optobjs s')(d := x)) m = optobjs s m"
  proof (intro ballI allI)
    fix m d x assume "m \<in> set (meta_refs s)" "d \<in> set ns"
    then have "m < nxt s" "nxt s \<le> d" using p2 b by (simp_all add: meta_refs_def)
    then show "((optobjs s')(d := x)) m = optobjs s m" using o by simp
  qed
  show "\<exists>defs s'. getConfigsDefintions s = (Inr defs, s') \<and>
         map (optobjs s') defs = map (optobjs s) (meta_refs s) \<and>
         distinct defs \<and> (\<forall>d\<in>set defs. nxt s \<le> d \<and> d < nxt s') \<and>
         (\<forall>m\<in>set (meta_refs s). \<forall>d\<in>set defs. \<forall>x. ((optobjs s')(d := x)) m = optobjs s m) \<and>
         configs s' = configs s \<and> objs s' = objs s"
    using g m d b ind c unfolding meta_refs_def by blast
next
  fix w c options
  show "map fst (configs (snd (add w c options s))) =
      (if Map_has (configs s) c \<or> validateConfigFieldOptions w s c \<noteq> None then map fst (configs s)
       else map fst (configs s) @ [c])"
    by (rule add_configs_keys)
qed

theorem getConfigsDefintions_copies_witness:
  "registry_ok st_both \<and>
   fst (getConfigsDefintions st_both) = Inr [8, 9, 10, 11] \<and>
   map (optobjs (snd (getConfigsDefintions st_both))) [8, 9, 10, 11]
     = [helloOptions, greetingOptions, goodbyeOptions, idleOptions] \<and>
   getConfigsDefintions st_hello = (Inr [], st_hello) \<and>
   map fst (configs (snd (add envWorld ExampleClass noOptions st_hello))) = [ExampleClass]"
proof -
  have inv: "registry_ok st_both"
    by (simp add: registry_ok_def meta_refs_def refs_of_def example_defs)
  have ev: "fst (getConfigsDefintions st_both) = Inr [8, 9, 10, 11]"
    by (simp add: getConfigsDefintions_def getConfigValueOptionsMap_def copy_options_def example_defs)
  have mr: "map (optobjs st_both) (meta_refs st_both) = [helloOptions, greetingOptions, goodbyeOptions, idleOptions]"
    by (simp add: meta_refs_def refs_of_def st_both_def st_meta_def ExampleClass_def Communicator_def)
  have e0: "configs st_hello = []" by (simp add: st_hello_def)
  have h1: "\<not> Map_has (configs st_hello) ExampleClass" by (simp add: Map_has_def st_hello_def)
  have h2: "validateConfigFieldOptions envWorld st_hello ExampleClass = None"
    by (simp add: validateConfigFieldOptions_def getConfigValueOptionsMap_def example_defs)
  from getConfigsDefintions_copies [of st_both] inv obtain defs s' where
    g: "getConfigsDefintions st_both = (Inr defs, s')"
    and m: "map (optobjs s') defs = map (optobjs st_both) (meta_refs st_both)"
    by blast
  from g ev have "defs = [8, 9, 10, 11]" "s' = snd (getConfigsDefintions st_both)" by simp_all
  with m mr have cp: "map (optobjs (snd (getConfigsDefintions st_both))) [8, 9, 10, 11]
     = [helloOptions, greetingOptions, goodbyeOptions, idleOptions]" by simp
  have "getConfigsDefintions st_hello = (Inr [], st_hello)"
    using getConfigsDefintions_copies [of st_hello] e0 by blast
  moreover have "map fst (configs (snd (add envWorld ExampleClass noOptions st_hello))) = [ExampleClass]"
    using getConfigsDefintions_copies [of st_hello] h1 h2 e0 by simp
  ultimately show ?thesis using inv ev cp by blast
qed

section \<open>Lookup after registration\<close>

text \<open>
  C10. When \<open>add\<close> succeeds, the reference it returns is the one \<open>get\<close> returns for
  the class, right afterwards and after any further calls of the manager and writes
  through references (the manager has no operation that removes a class).
\<close>

theorem get_returns_added_instance:
  assumes "add w c options s = (Inr a, s')"
  shows "get c s' = Inr a \<and> (\<forall>xs. get c (fold step xs s') = Inr a)"
proof -
  have reg: "Map_get (configs s') c = Some a" using assms by (rule add_success_get)
  have "get c t = Inr a" if "Map_get (configs t) c = Some a" for t
    using that by (simp add: get_def Map_has_iff_get)
  then show ?thesis using reg steps_keep_registered [OF reg] by simp
qed

theorem get_returns_added_instance_witness:
  "add envWorld ExampleClass noOptions st_hello = (Inr 2, snd (add envWorld ExampleClass noOptions st_hello)) \<and>
   get ExampleClass (snd (add envWorld ExampleClass noOptions st_hello)) = Inr 2 \<and>
   get ExampleClass
     (fold step [Write 2 ''propertyDefaultHelloWorld'' (Str ''Hey World!''),
                 Add plainWorld ExampleClass noOptions, GetConfigsDefintions]
        (snd (add envWorld ExampleClass noOptions st_hello))) = Inr 2"
proof -
  have ok: "add envWorld ExampleClass noOptions st_hello = (Inr 2, snd (add envWorld ExampleClass noOptions st_hello))"
    by (simp add: manager_defs example_defs)
  show ?thesis
    using ok get_returns_added_instance [OF ok] by blast
qed

end
